theory Spec2Isabelle
  imports Main "HOL-Library.Word"
begin

unbundle bit_operations_syntax

section \<open>JavaScript numbers under the bitwise operators\<close>

text \<open>
  The module (src/index.ts) computes with JavaScript numbers. Every number that occurs is
  integer valued, so a number is an \<open>int\<close> here. The operators \<open><<\<close>, \<open>|\<close> and \<open>&\<close>
  first convert their operands to 32-bit two's complement (ToInt32), compute on 32 bits
  and give the signed reading of the result back; the shift count of \<open><<\<close> is taken
  modulo 32.
\<close>

type_synonym int32 = "32 word"

definition toInt32 :: "int \<Rightarrow> int32" where
  "toInt32 x = word_of_int x"

definition js_shl :: "int \<Rightarrow> int \<Rightarrow> int" where
  "js_shl a n = sint (push_bit (nat (n mod 32)) (toInt32 a))"

definition js_or :: "int \<Rightarrow> int \<Rightarrow> int" where
  "js_or a b = sint (toInt32 a OR toInt32 b)"

definition js_and :: "int \<Rightarrow> int \<Rightarrow> int" where
  "js_and a b = sint (toInt32 a AND toInt32 b)"

text \<open>\<open>!!x\<close> on a number.\<close>

definition truthy_num :: "int \<Rightarrow> bool" where
  "truthy_num x = (x \<noteq> 0)"

section \<open>JavaScript objects\<close>

text \<open>
  A plain object is the list of its own enumerable properties in the order
  \<open>Object.keys\<close> reports them: keys that are array indices (canonical decimal numerals
  up to 4294967294) first, in ascending numeric order, then the other keys in the order
  they were created.
\<close>

type_synonym 'a js_object = "(string \<times> 'a) list"

definition is_digit :: "char \<Rightarrow> bool" where
  "is_digit c = (48 \<le> (of_char c :: int) \<and> (of_char c :: int) \<le> 57)"

definition dec_val :: "string \<Rightarrow> int" where
  "dec_val s = foldl (\<lambda>a c. 10 * a + ((of_char c :: int) - 48)) 0 s"

definition is_array_index :: "string \<Rightarrow> bool" where
  "is_array_index s =
     (case s of
        [] \<Rightarrow> False
      | c # cs \<Rightarrow> list_all is_digit s \<and> (if c = CHR ''0'' then cs = [] else True)
                 \<and> length s \<le> 10 \<and> dec_val s \<le> 4294967294)"

definition Object_keys :: "'a js_object \<Rightarrow> string list" where
  "Object_keys ob = map fst ob"

definition has_own :: "'a js_object \<Rightarrow> string \<Rightarrow> bool" where
  "has_own ob k = (map_of ob k \<noteq> None)"

fun obj_replace :: "string \<Rightarrow> 'a \<Rightarrow> 'a js_object \<Rightarrow> 'a js_object" where
  "obj_replace k b [] = []"
| "obj_replace k b ((k', b') # rest) =
     (if k' = k then (k', b) # rest else (k', b') # obj_replace k b rest)"

fun obj_insert_index :: "string \<Rightarrow> 'a \<Rightarrow> 'a js_object \<Rightarrow> 'a js_object" where
  "obj_insert_index k b [] = [(k, b)]"
| "obj_insert_index k b ((k', b') # rest) =
     (if is_array_index k' \<and> dec_val k' < dec_val k
      then (k', b') # obj_insert_index k b rest
      else (k, b) # (k', b') # rest)"

text \<open>
  Creating or overwriting an own data property (what \<open>Object.fromEntries\<close> does for each
  entry): an existing key keeps its place, a new one goes where the key order puts it.
\<close>

definition obj_define :: "'a js_object \<Rightarrow> string \<Rightarrow> 'a \<Rightarrow> 'a js_object" where
  "obj_define ob k b =
     (if has_own ob k then obj_replace k b ob
      else if is_array_index k then obj_insert_index k b ob
      else ob @ [(k, b)])"

text \<open>
  The assignment \<open>data[k] = b\<close> of a boolean to an object literal. The key
  \<open>__proto__\<close> is an accessor inherited from \<open>Object.prototype\<close> whose setter ignores a
  value that is not an object, so that assignment creates no property.
\<close>

definition obj_assign :: "bool js_object \<Rightarrow> string \<Rightarrow> bool \<Rightarrow> bool js_object" where
  "obj_assign ob k b = (if k = ''__proto__'' then ob else obj_define ob k b)"

definition Object_fromEntries :: "(string \<times> 'a) list \<Rightarrow> 'a js_object" where
  "Object_fromEntries es = foldl (\<lambda>ob e. obj_define ob (fst e) (snd e)) [] es"

text \<open>
  The names every plain object inherits from \<open>Object.prototype\<close>; reading one of them
  from an object without such an own property gives a function or an object, which is
  truthy.
\<close>

definition objectPrototypeKeys :: "string list" where
  "objectPrototypeKeys =
     [''constructor'', ''hasOwnProperty'', ''isPrototypeOf'', ''propertyIsEnumerable'',
      ''toLocaleString'', ''toString'', ''valueOf'', ''__proto__'',
      ''__defineGetter__'', ''__defineSetter__'', ''__lookupGetter__'', ''__lookupSetter__'']"

text \<open>The truthiness of \<open>value[k]\<close> for a plain object of booleans.\<close>

definition truthy_prop :: "bool js_object \<Rightarrow> string \<Rightarrow> bool" where
  "truthy_prop ob k =
     (case map_of ob k of
        Some b \<Rightarrow> b
      | None \<Rightarrow> k \<in> set objectPrototypeKeys)"

section \<open>The flag codec\<close>

datatype error = Error string

text \<open>\<open>_intSizes\<close>, in the order \<open>Object.entries\<close> walks it (no key is an array index).\<close>

definition intSizes :: "(string \<times> nat) list" where
  "intSizes =
     [(''tinyint'', 1), (''smallint'', 2), (''mediumint'', 3), (''int'', 4), (''bigint'', 8)]"

fun intTypeForFlags_loop :: "(string \<times> nat) list \<Rightarrow> nat \<Rightarrow> error + string" where
  "intTypeForFlags_loop [] nFlags = Inl (Error ''Too many flags'')"
| "intTypeForFlags_loop ((ty, sz) # rest) nFlags =
     (if nFlags \<le> 8 * sz then Inr ty else intTypeForFlags_loop rest nFlags)"

definition intTypeForFlags :: "nat \<Rightarrow> error + string" where
  "intTypeForFlags nFlags = intTypeForFlags_loop intSizes nFlags"

text \<open>
  The loop of \<open>flagsToInt\<close>, from index \<open>i\<close> on: \<open>fs\<close> is what is left of \<open>flags\<close> and
  \<open>data\<close> the accumulator.
\<close>

fun flagsToInt_loop :: "nat \<Rightarrow> string list \<Rightarrow> bool js_object \<Rightarrow> int \<Rightarrow> int" where
  "flagsToInt_loop i [] val data = data"
| "flagsToInt_loop i (fl # fs) val data =
     flagsToInt_loop (Suc i) fs val
       (if truthy_prop val fl then js_or data (js_shl 1 (int i)) else data)"

definition flagsToInt :: "string list \<Rightarrow> bool js_object \<Rightarrow> int" where
  "flagsToInt flags val = flagsToInt_loop 0 flags val 0"

fun fromDriver_loop :: "nat \<Rightarrow> string list \<Rightarrow> int \<Rightarrow> bool js_object \<Rightarrow> bool js_object" where
  "fromDriver_loop i [] val data = data"
| "fromDriver_loop i (fl # fs) val data =
     fromDriver_loop (Suc i) fs val
       (obj_assign data fl (truthy_num (js_and val (js_shl 1 (int i)))))"

definition fromDriver :: "string list \<Rightarrow> int \<Rightarrow> bool js_object" where
  "fromDriver flags val = fromDriver_loop 0 flags val []"

definition toDriver :: "string list \<Rightarrow> bool js_object \<Rightarrow> int" where
  "toDriver flags val = flagsToInt flags val"

text \<open>
  A column as the module uses it: its name, its SQL type (the \<open>dataType\<close> callback),
  and the two mappers.
\<close>

record column =
  colName :: string
  dataType :: "error + string"
  mapToDriverValue :: "bool js_object \<Rightarrow> int"
  mapFromDriverValue :: "int \<Rightarrow> bool js_object"

definition flags :: "string \<Rightarrow> string list \<Rightarrow> column" where
  "flags name fls =
     \<lparr> colName = name,
       dataType = intTypeForFlags (length fls),
       mapToDriverValue = toDriver fls,
       mapFromDriverValue = fromDriver fls \<rparr>"

section \<open>Filters and extra fields\<close>

text \<open>
  An \<open>sql\<close> template is the list of its chunks: the literal strings of the template
  alternate with the interpolated column and parameters.
\<close>

datatype sql_chunk = StringChunk string | ColumnChunk column | ParamChunk int

type_synonym sql = "sql_chunk list"

text \<open>The argument \<open>value: U | U[]\<close>.\<close>

datatype flag_arg = One string | Many "string list"

definition f :: "column \<Rightarrow> flag_arg \<Rightarrow> bool \<Rightarrow> sql" where
  "f col val target =
     (let template = mapFromDriverValue col 0;
          fls = Object_keys template;
          vals = (case val of One v \<Rightarrow> [v] | Many vs \<Rightarrow> vs);
          v = Object_fromEntries (map (\<lambda>fl. (fl, if fl \<in> set vals then True else False)) fls);
          n = flagsToInt fls v
      in if target
         then [StringChunk [], ColumnChunk col, StringChunk '' & '', ParamChunk n,
               StringChunk '' = '', ParamChunk n, StringChunk []]
         else [StringChunk [], ColumnChunk col, StringChunk '' & '', ParamChunk n,
               StringChunk '' = 0''])"

definition f1 :: "column \<Rightarrow> flag_arg \<Rightarrow> sql" where
  "f1 col val = f col val True"

definition f0 :: "column \<Rightarrow> flag_arg \<Rightarrow> sql" where
  "f0 col val = f col val False"

text \<open>\<open>flags.indexOf(x)\<close>: the first position of \<open>x\<close>, or \<open>-1\<close>.\<close>

fun indexOf :: "string list \<Rightarrow> string \<Rightarrow> int" where
  "indexOf [] x = -1"
| "indexOf (y # ys) x =
     (if y = x then 0 else (let r = indexOf ys x in if r < 0 then -1 else r + 1))"

text \<open>An aliased expression: the template, the \<open>mapWith\<close> decoder and the alias.\<close>

record aliased =
  sqlOf :: sql
  decoder :: "int \<Rightarrow> bool"
  fieldAlias :: string

definition flagsExtras :: "column \<Rightarrow> aliased js_object" where
  "flagsExtras col =
     (let fls = Object_keys (mapFromDriverValue col 0)
      in Object_fromEntries
           (map (\<lambda>fl. (fl,
                  \<lparr> sqlOf = [StringChunk [], ColumnChunk col, StringChunk '' & '',
                              ParamChunk (js_shl 1 (indexOf fls fl)), StringChunk []],
                    decoder = truthy_num,
                    fieldAlias = fl \<rparr>)) fls))"

section \<open>Reading the emitted expressions\<close>

text \<open>
  Modelled from the spec: the query layer that evaluates the emitted expressions is not
  part of the repository. Following the specification's reading of them, \<open>col & k\<close> at
  a stored integer \<open>r\<close> is the bitwise and of \<open>r\<close> and \<open>k\<close>, \<open>=\<close> compares integers, and
  \<open>&\<close> binds tighter than \<open>=\<close>. Only the three shapes the module emits are read, and
  only with non-negative parameters, where the bitwise and of the binary numerals needs
  no word size.
\<close>

definition eval_bitand :: "sql \<Rightarrow> int \<Rightarrow> int option" where
  "eval_bitand q r =
     (case q of
        [StringChunk s0, ColumnChunk c, StringChunk s1, ParamChunk k, StringChunk s2] \<Rightarrow>
          if s0 = [] \<and> s1 = '' & '' \<and> s2 = [] \<and> 0 \<le> k then Some (r AND k) else None
      | _ \<Rightarrow> None)"

definition eval_filter :: "sql \<Rightarrow> int \<Rightarrow> bool option" where
  "eval_filter q r =
     (case q of
        [StringChunk s0, ColumnChunk c, StringChunk s1, ParamChunk k, StringChunk s2] \<Rightarrow>
          if s0 = [] \<and> s1 = '' & '' \<and> s2 = '' = 0'' \<and> 0 \<le> k
          then Some (r AND k = 0) else None
      | [StringChunk s0, ColumnChunk c, StringChunk s1, ParamChunk k, StringChunk s2,
         ParamChunk k', StringChunk s3] \<Rightarrow>
          if s0 = [] \<and> s1 = '' & '' \<and> s2 = '' = '' \<and> s3 = [] \<and> 0 \<le> k \<and> 0 \<le> k'
          then Some (r AND k = k') else None
      | _ \<Rightarrow> None)"

text \<open>A result field: the value of the expression, passed through its decoder.\<close>

definition eval_aliased :: "aliased \<Rightarrow> int \<Rightarrow> bool option" where
  "eval_aliased e r = map_option (decoder e) (eval_bitand (sqlOf e) r)"

section \<open>Concrete flag sets\<close>

definition flags33 :: "string list" where
  "flags33 =
     [''f0'', ''f1'', ''f2'', ''f3'', ''f4'', ''f5'', ''f6'', ''f7'',
      ''f8'', ''f9'', ''f10'', ''f11'', ''f12'', ''f13'', ''f14'', ''f15'',
      ''f16'', ''f17'', ''f18'', ''f19'', ''f20'', ''f21'', ''f22'', ''f23'',
      ''f24'', ''f25'', ''f26'', ''f27'', ''f28'', ''f29'', ''f30'', ''f31'', ''f32'']"

definition flags32 :: "string list" where
  "flags32 = butlast flags33"

text \<open>The total flag value over \<open>fls\<close> in which exactly the names in \<open>on\<close> are true.\<close>

definition flagValue :: "string list \<Rightarrow> string list \<Rightarrow> bool js_object" where
  "flagValue fls on = map (\<lambda>k. (k, k \<in> set on)) fls"

section \<open>Objects: lookups and keys after an update\<close>

lemma has_own_iff: "has_own ob k \<longleftrightarrow> k \<in> set (Object_keys ob)"
  by (simp add: has_own_def Object_keys_def map_of_eq_None_iff)

lemma map_of_obj_replace:
  "map_of (obj_replace k b ob) x =
     (if x = k \<and> has_own ob k then Some b else map_of ob x)"
  by (induction ob) (auto simp: has_own_def)

lemma keys_obj_replace: "map fst (obj_replace k b ob) = map fst ob"
  by (induction ob) auto

lemma map_of_obj_insert_index:
  "map_of ob k = None \<Longrightarrow>
   map_of (obj_insert_index k b ob) x = (if x = k then Some b else map_of ob x)"
  by (induction ob) (auto split: if_splits)

lemma keys_obj_insert_index:
  "fst ` set (obj_insert_index k b ob) = insert k (fst ` set ob)"
proof (induction ob)
  case Nil
  show ?case by simp
next
  case (Cons p ob)
  obtain k' b' where p: "p = (k', b')" by (cases p)
  show ?case
  proof (cases "is_array_index k' \<and> dec_val k' < dec_val k")
    case True
    then have "obj_insert_index k b (p # ob) = (k', b') # obj_insert_index k b ob"
      unfolding p by simp
    then show ?thesis using Cons.IH by (auto simp: p)
  next
    case False
    have "obj_insert_index k b (p # ob) = (k, b) # (k', b') # ob"
      unfolding p obj_insert_index.simps using False by (rule if_not_P)
    then show ?thesis by (auto simp: p)
  qed
qed

lemma length_obj_insert_index: "length (obj_insert_index k b ob) = Suc (length ob)"
  by (induction ob) auto

lemma map_of_obj_define:
  "map_of (obj_define ob k b) x = (if x = k then Some b else map_of ob x)"
proof (cases "has_own ob k")
  case True
  then show ?thesis by (simp add: obj_define_def map_of_obj_replace)
next
  case False
  then have none: "map_of ob k = None" by (simp add: has_own_def)
  show ?thesis
  proof (cases "is_array_index k")
    case True
    with False show ?thesis
      by (simp add: obj_define_def map_of_obj_insert_index [OF none])
  next
    case idx: False
    have "map_of (ob @ [(k, b)]) x = (if x = k then Some b else map_of ob x)"
      using none by (cases "map_of ob x") (auto simp: map_add_def)
    with False idx show ?thesis by (simp add: obj_define_def)
  qed
qed

lemma keys_obj_define:
  "set (Object_keys (obj_define ob k b)) = insert k (set (Object_keys ob))"
proof (cases "has_own ob k")
  case True
  then have "k \<in> set (Object_keys ob)" by (simp add: has_own_iff)
  with True show ?thesis
    by (auto simp: obj_define_def Object_keys_def keys_obj_replace)
next
  case False
  then show ?thesis
    by (simp add: obj_define_def Object_keys_def keys_obj_insert_index)
qed

lemma length_obj_define:
  "length (obj_define ob k b) = (if has_own ob k then length ob else Suc (length ob))"
proof -
  have "length (obj_replace k b ob) = length ob"
    using keys_obj_replace [of k b ob] by (metis length_map)
  then show ?thesis
    by (simp add: obj_define_def length_obj_insert_index)
qed

lemma has_own_Nil [simp]: "\<not> has_own [] k"
  by (simp add: has_own_def)

lemma has_own_obj_define: "has_own (obj_define ob k b) k' \<longleftrightarrow> k' = k \<or> has_own ob k'"
  by (simp add: has_own_def map_of_obj_define)

section \<open>Width derivation\<close>

lemma intTypeForFlags_cases:
  "intTypeForFlags n =
     (if n \<le> 8 then Inr ''tinyint'' else if n \<le> 16 then Inr ''smallint''
      else if n \<le> 24 then Inr ''mediumint'' else if n \<le> 32 then Inr ''int''
      else if n \<le> 64 then Inr ''bigint'' else Inl (Error ''Too many flags''))"
  by (simp add: intTypeForFlags_def intSizes_def)

text \<open>
  Claim C2. \<open>intTypeForFlags\<close> sends the flag counts 1, 8, 9, 16, 17, 24, 25, 32, 33, 64
  to the types whose sizes in \<open>_intSizes\<close> are 1, 1, 2, 2, 3, 3, 4, 4, 8, 8 bytes; every
  count above 64 throws \<open>Error('Too many flags')\<close>; and whenever a type is returned, its
  size \<open>w\<close> covers the count (\<open>n \<le> 8 * w\<close>) and no entry of the table that covers the
  count is smaller.
\<close>

theorem intTypeForFlags_widths:
  "map intTypeForFlags [1, 8, 9, 16, 17, 24, 25, 32, 33, 64] =
     [Inr ''tinyint'', Inr ''tinyint'', Inr ''smallint'', Inr ''smallint'',
      Inr ''mediumint'', Inr ''mediumint'', Inr ''int'', Inr ''int'',
      Inr ''bigint'', Inr ''bigint'']
   \<and> map (map_of intSizes) [''tinyint'', ''smallint'', ''mediumint'', ''int'', ''bigint''] =
       [Some 1, Some 2, Some 3, Some 4, Some 8]
   \<and> (\<forall>n. 64 < n \<longrightarrow> intTypeForFlags n = Inl (Error ''Too many flags''))
   \<and> (\<forall>n ty. intTypeForFlags n = Inr ty \<longrightarrow>
         (\<exists>w. map_of intSizes ty = Some w \<and> n \<le> 8 * w
              \<and> list_all (\<lambda>e. n \<le> 8 * snd e \<longrightarrow> w \<le> snd e) intSizes))"
proof (intro conjI allI impI)
  show "map intTypeForFlags [1, 8, 9, 16, 17, 24, 25, 32, 33, 64] =
     [Inr ''tinyint'', Inr ''tinyint'', Inr ''smallint'', Inr ''smallint'',
      Inr ''mediumint'', Inr ''mediumint'', Inr ''int'', Inr ''int'',
      Inr ''bigint'', Inr ''bigint'']"
    by (simp add: intTypeForFlags_cases)
  show "map (map_of intSizes) [''tinyint'', ''smallint'', ''mediumint'', ''int'', ''bigint''] =
       [Some 1, Some 2, Some 3, Some 4, Some 8]"
    by (simp add: intSizes_def)
next
  fix n :: nat assume "64 < n"
  then show "intTypeForFlags n = Inl (Error ''Too many flags'')"
    by (simp add: intTypeForFlags_cases)
next
  fix n ty assume h: "intTypeForFlags n = Inr ty"
  show "\<exists>w. map_of intSizes ty = Some w \<and> n \<le> 8 * w
              \<and> list_all (\<lambda>e. n \<le> 8 * snd e \<longrightarrow> w \<le> snd e) intSizes"
    using h by (auto simp: intTypeForFlags_cases intSizes_def split: if_splits)
qed

theorem intTypeForFlags_widths_witness:
  "(64::nat) < 65 \<and> intTypeForFlags 65 = Inl (Error ''Too many flags'')
   \<and> intTypeForFlags 9 = Inr ''smallint''
   \<and> (\<exists>w. map_of intSizes ''smallint'' = Some w \<and> (9::nat) \<le> 8 * w
            \<and> list_all (\<lambda>e. (9::nat) \<le> 8 * snd e \<longrightarrow> w \<le> snd e) intSizes)"
proof -
  have a: "(64::nat) < 65" by simp
  have b: "intTypeForFlags 65 = Inl (Error ''Too many flags'')"
    using intTypeForFlags_widths a by blast
  have c: "intTypeForFlags 9 = Inr ''smallint''"
    using intTypeForFlags_widths by simp
  have d: "\<exists>w. map_of intSizes ''smallint'' = Some w \<and> (9::nat) \<le> 8 * w
            \<and> list_all (\<lambda>e. (9::nat) \<le> 8 * snd e \<longrightarrow> w \<le> snd e) intSizes"
    using intTypeForFlags_widths c by blast
  show ?thesis using a b c d by blast
qed

section \<open>Decoding\<close>

lemma toInt32_sint [simp]: "toInt32 (sint (w :: int32)) = w"
  by (simp add: toInt32_def)

lemma bit_toInt32: "bit (toInt32 x) j \<longleftrightarrow> j < 32 \<and> bit x j"
  by (simp add: toInt32_def bit_word_of_int_iff)

lemma sint_eq_0_iff: "sint (w :: int32) = 0 \<longleftrightarrow> w = 0"
  by (metis sint_0 toInt32_sint)

lemma and_exp_eq_0: "(w :: int32) AND 2 ^ k = 0 \<longleftrightarrow> \<not> bit w k"
proof
  assume h: "w AND 2 ^ k = 0"
  show "\<not> bit w k"
  proof
    assume "bit w k"
    then have "bit (w AND 2 ^ k) k"
      using bit_imp_le_length [of w k] by (simp add: bit_and_iff bit_exp_iff)
    with h show False by simp
  qed
next
  assume "\<not> bit w k"
  then show "w AND 2 ^ k = 0"
    by (intro bit_eqI) (auto simp: bit_and_iff bit_exp_iff)
qed

lemma truthy_bit:
  "truthy_num (js_and v (js_shl 1 (int i))) = bit v (i mod 32)"
proof -
  have "nat (int i mod 32) = i mod 32"
    by (simp add: nat_mod_as_int)
  moreover have "bit (word_of_int v :: int32) (i mod 32) = bit v (i mod 32)"
    by (simp add: bit_word_of_int_iff)
  ultimately show ?thesis
    by (simp add: truthy_num_def js_and_def js_shl_def sint_eq_0_iff and_exp_eq_0 toInt32_def)
qed

lemma fromDriver_loop_mod:
  "i + length fs \<le> n \<Longrightarrow>
   fromDriver_loop i fs (r mod 2 ^ n) data = fromDriver_loop i fs r data"
proof (induction fs arbitrary: i data)
  case Nil
  then show ?case by simp
next
  case (Cons fl fs)
  have "i mod 32 < n" using Cons.prems
  proof -
    have "i < n" using Cons.prems by simp
    moreover have "i mod 32 \<le> i" by simp
    ultimately show ?thesis by linarith
  qed
  then have "bit (r mod 2 ^ n) (i mod 32) = bit r (i mod 32)"
    by (simp add: bit_take_bit_iff flip: take_bit_eq_mod)
  with Cons show ?case
    by (simp add: truthy_bit)
qed

text \<open>
  Claim C8. \<open>fromDriver\<close> has no failing branch, and the bits of the stored integer at
  the positions \<open>|flags|\<close> and above do not reach its result: decoding \<open>r\<close> and decoding
  \<open>r mod 2 ^ |flags|\<close> give the same object, for every integer \<open>r\<close>.
\<close>

theorem fromDriver_ignores_high_bits:
  "fromDriver fls r = fromDriver fls (r mod 2 ^ length fls)"
  by (simp add: fromDriver_def fromDriver_loop_mod)

section \<open>Filters\<close>

text \<open>
  Claim C10. A bare flag name given to \<open>f1\<close> or \<open>f0\<close> builds the same expression as the
  one-element list of that name.
\<close>

theorem f_string_is_singleton:
  "f1 col (One v) = f1 col (Many [v]) \<and> f0 col (One v) = f0 col (Many [v])"
  by (simp add: f1_def f0_def f_def)

text \<open>
  Claim C6 says that a selected name absent from the recovered flag set makes \<open>f\<close> raise.
  It does not: with recovered flags \<open>[a, b]\<close> and the selection \<open>[a, z]\<close>, \<open>f\<close> returns
  the expression for the mask 1, the one of the selection \<open>[a]\<close>.
\<close>

theorem unknown_name_dropped_counterexample:
  "''z'' \<notin> set (Object_keys (mapFromDriverValue (flags ''flags'' [''a'', ''b'']) 0))
   \<and> f (flags ''flags'' [''a'', ''b'']) (Many [''a'', ''z'']) True =
     [StringChunk [], ColumnChunk (flags ''flags'' [''a'', ''b'']), StringChunk '' & '',
      ParamChunk 1, StringChunk '' = '', ParamChunk 1, StringChunk []]"
proof -
  have k: "''z'' \<notin> set (Object_keys (mapFromDriverValue (flags ''flags'' [''a'', ''b'']) 0))"
    by code_simp
  have m: "flagsToInt (Object_keys (mapFromDriverValue (flags ''flags'' [''a'', ''b'']) 0))
     (Object_fromEntries (map (\<lambda>fl. (fl, if fl \<in> set [''a'', ''z''] then True else False))
        (Object_keys (mapFromDriverValue (flags ''flags'' [''a'', ''b'']) 0)))) = 1"
    by code_simp
  have "f (flags ''flags'' [''a'', ''b'']) (Many [''a'', ''z'']) True =
     [StringChunk [], ColumnChunk (flags ''flags'' [''a'', ''b'']), StringChunk '' & '',
      ParamChunk 1, StringChunk '' = '', ParamChunk 1, StringChunk []]"
    unfolding f_def Let_def flag_arg.case m by simp
  with k show ?thesis by (rule conjI)
qed

lemma f_selection_cong:
  assumes "\<And>fl. fl \<in> set (Object_keys (mapFromDriverValue col 0)) \<Longrightarrow>
             fl \<in> set (case a of One v \<Rightarrow> [v] | Many vs \<Rightarrow> vs) \<longleftrightarrow>
             fl \<in> set (case b of One v \<Rightarrow> [v] | Many vs \<Rightarrow> vs)"
  shows "f col a target = f col b target"
proof -
  let ?fls = "Object_keys (mapFromDriverValue col 0)"
  have h: "map (\<lambda>fl. (fl, if fl \<in> set (case a of One v \<Rightarrow> [v] | Many vs \<Rightarrow> vs) then True else False)) ?fls =
        map (\<lambda>fl. (fl, if fl \<in> set (case b of One v \<Rightarrow> [v] | Many vs \<Rightarrow> vs) then True else False)) ?fls"
    by (rule map_cong) (use assms in auto)
  show ?thesis
    unfolding f_def Let_def h by (rule refl)
qed

text \<open>
  Claim C6, amended. \<open>f\<close> has no failing branch, and a selected name that is not a key of
  the recovered flag set contributes nothing: the expression built from a selection,
  given as a list or as a single name, is the one built from the selection with those
  names removed.
\<close>

theorem unknown_names_contribute_nothing:
  "f col (Many vs) target =
     f col (Many (filter (\<lambda>v. v \<in> set (Object_keys (mapFromDriverValue col 0))) vs)) target
   \<and> f col (One v) target =
     f col (Many (filter (\<lambda>v. v \<in> set (Object_keys (mapFromDriverValue col 0))) [v])) target"
  by (intro conjI f_selection_cong) auto

section \<open>Extra fields\<close>

lemma indexOf3:
  "distinct [a, b, c] \<Longrightarrow>
   indexOf [a, b, c] a = 0 \<and> indexOf [a, b, c] b = 1 \<and> indexOf [a, b, c] c = 2"
  by (auto simp: Let_def)

lemma js_shl_small: "js_shl 1 0 = 1" "js_shl 1 1 = 2" "js_shl 1 2 = 4"
  by (simp_all add: js_shl_def toInt32_def)

text \<open>
  Claim C7. For a column whose recovered flag set is \<open>[a, b, c]\<close> (three different
  names, as the keys of an object are), \<open>flagsExtras\<close> returns
  an object with exactly the three keys \<open>a\<close>, \<open>b\<close>, \<open>c\<close>; the field of the flag at
  position \<open>i\<close> is the expression \<open>col & (1 << i)\<close> decoded by \<open>!!\<close> and aliased by the
  flag's name, so at a stored integer \<open>r\<close> it reads \<open>(r AND (1 << i)) \<noteq> 0\<close>; at the
  stored integer 5 the three fields read true, false, true.
\<close>

theorem flagsExtras_abc:
  assumes keys: "Object_keys (mapFromDriverValue col 0) = [a, b, c]"
      and dist: "distinct [a, b, c]"
  shows "length (flagsExtras col) = 3 \<and> set (Object_keys (flagsExtras col)) = {a, b, c}
     \<and> map_of (flagsExtras col) a =
         Some \<lparr> sqlOf = [StringChunk [], ColumnChunk col, StringChunk '' & '', ParamChunk 1, StringChunk []],
                decoder = truthy_num, fieldAlias = a \<rparr>
     \<and> map_of (flagsExtras col) b =
         Some \<lparr> sqlOf = [StringChunk [], ColumnChunk col, StringChunk '' & '', ParamChunk 2, StringChunk []],
                decoder = truthy_num, fieldAlias = b \<rparr>
     \<and> map_of (flagsExtras col) c =
         Some \<lparr> sqlOf = [StringChunk [], ColumnChunk col, StringChunk '' & '', ParamChunk 4, StringChunk []],
                decoder = truthy_num, fieldAlias = c \<rparr>
     \<and> (\<forall>r. map (\<lambda>k. Option.bind (map_of (flagsExtras col) k) (\<lambda>e. eval_aliased e r)) [a, b, c] =
            [Some (r AND push_bit 0 1 \<noteq> 0), Some (r AND push_bit 1 1 \<noteq> 0), Some (r AND push_bit 2 1 \<noteq> 0)])
     \<and> map (\<lambda>k. Option.bind (map_of (flagsExtras col) k) (\<lambda>e. eval_aliased e 5)) [a, b, c] =
            [Some True, Some False, Some True]"
proof -
  let ?e = "\<lambda>k m. \<lparr> sqlOf = [StringChunk [], ColumnChunk col, StringChunk '' & '', ParamChunk m, StringChunk []],
                decoder = truthy_num, fieldAlias = k \<rparr>"
  have ex: "flagsExtras col =
      obj_define (obj_define (obj_define [] a (?e a 1)) b (?e b 2)) c (?e c 4)"
    using indexOf3 [OF dist]
    by (simp add: flagsExtras_def keys Let_def Object_fromEntries_def js_shl_small)
  have la: "map_of (flagsExtras col) a = Some (?e a 1)"
    and lb: "map_of (flagsExtras col) b = Some (?e b 2)"
    and lc: "map_of (flagsExtras col) c = Some (?e c 4)"
    using dist by (auto simp add: ex map_of_obj_define)
  have len: "length (flagsExtras col) = 3"
    using dist by (auto simp add: ex length_obj_define has_own_obj_define)
  have ks: "set (Object_keys (flagsExtras col)) = {a, b, c}"
  proof -
    have "set (Object_keys ([] :: aliased js_object)) = {}"
      by (simp add: Object_keys_def)
    then show ?thesis
      unfolding ex keys_obj_define by auto
  qed
  have ev: "eval_aliased (?e k m) r = (if 0 \<le> m then Some (r AND m \<noteq> 0) else None)" for k m r
    by (simp add: eval_aliased_def eval_bitand_def truthy_num_def)
  have five: "(5::int) AND 1 = 1" "(5::int) AND 2 = 0" "(5::int) AND 4 = 4"
    by simp_all
  show ?thesis
    by (simp add: len ks la lb lc ev five)
qed

theorem flagsExtras_abc_witness:
  "Object_keys (mapFromDriverValue (flags ''flags'' [''a'', ''b'', ''c'']) 0) = [''a'', ''b'', ''c'']
   \<and> distinct [''a'', ''b'', ''c'']
   \<and> length (flagsExtras (flags ''flags'' [''a'', ''b'', ''c''])) = 3
   \<and> map (\<lambda>k. Option.bind (map_of (flagsExtras (flags ''flags'' [''a'', ''b'', ''c''])) k)
                 (\<lambda>e. eval_aliased e 5)) [''a'', ''b'', ''c''] =
       [Some True, Some False, Some True]"
proof -
  have keys: "Object_keys (mapFromDriverValue (flags ''flags'' [''a'', ''b'', ''c'']) 0) =
      [''a'', ''b'', ''c'']"
    by code_simp
  have dist: "distinct [''a'', ''b'', ''c'']"
    by simp
  show ?thesis
    using keys dist flagsExtras_abc [OF keys dist] by blast
qed

section \<open>Encoding: the bits of the result\<close>

lemma toInt32_js_or: "toInt32 (js_or a b) = toInt32 a OR toInt32 b"
  by (simp add: js_or_def)

lemma toInt32_js_shl_1: "toInt32 (js_shl 1 (int i)) = 2 ^ (i mod 32)"
proof -
  have "nat (int i mod 32) = i mod 32"
    by (simp add: nat_mod_as_int)
  then show ?thesis
    by (simp add: js_shl_def toInt32_def)
qed

lemma toInt32_0 [simp]: "toInt32 0 = 0"
  by (simp add: toInt32_def)

lemma bit_int32_bound: "bit (w :: int32) j \<Longrightarrow> j < 32"
  using bit_imp_le_length [of w j] by simp

lemma bit_sint_int32: "j < 32 \<Longrightarrow> bit (sint (w :: int32)) j = bit w j"
  by (simp add: bit_sint_iff)

lemma bit_exp_int32: "bit (2 ^ m :: int32) j \<longleftrightarrow> j = m \<and> m < 32"
  by (auto simp: bit_exp_iff)

lemma bit_flagsToInt_loop:
  "bit (toInt32 (flagsToInt_loop i fs v data)) j \<longleftrightarrow>
     bit (toInt32 data) j \<or> (\<exists>k<length fs. (i + k) mod 32 = j \<and> truthy_prop v (fs ! k))"
proof (induction fs arbitrary: i data)
  case Nil
  show ?case by simp
next
  case (Cons fl fs)
  let ?d = "if truthy_prop v fl then js_or data (js_shl 1 (int i)) else data"
  have d: "bit (toInt32 ?d) j \<longleftrightarrow> bit (toInt32 data) j \<or> (truthy_prop v fl \<and> i mod 32 = j)"
    by (auto simp: toInt32_js_or toInt32_js_shl_1 bit_or_iff bit_exp_int32)
  have ex: "(\<exists>k<length (fl # fs). (i + k) mod 32 = j \<and> truthy_prop v ((fl # fs) ! k)) \<longleftrightarrow>
        (truthy_prop v fl \<and> i mod 32 = j) \<or>
        (\<exists>k<length fs. (Suc i + k) mod 32 = j \<and> truthy_prop v (fs ! k))"
    by (auto simp: less_Suc_eq_0_disj)
  have "bit (toInt32 (flagsToInt_loop i (fl # fs) v data)) j \<longleftrightarrow>
        bit (toInt32 ?d) j \<or> (\<exists>k<length fs. (Suc i + k) mod 32 = j \<and> truthy_prop v (fs ! k))"
    using Cons.IH [of "Suc i" ?d] by simp
  then show ?case
    unfolding d ex by blast
qed

lemma flagsToInt_loop_int32:
  "data = sint (toInt32 data) \<Longrightarrow>
   flagsToInt_loop i fs v data = sint (toInt32 (flagsToInt_loop i fs v data))"
proof (induction fs arbitrary: i data)
  case Nil
  then show ?case by simp
next
  case (Cons fl fs)
  let ?d = "if truthy_prop v fl then js_or data (js_shl 1 (int i)) else data"
  have "?d = sint (toInt32 ?d)"
    using Cons.prems by (simp add: js_or_def)
  from Cons.IH [OF this, of "Suc i"] show ?case by simp
qed

lemma flagsToInt_sint: "flagsToInt fls v = sint (toInt32 (flagsToInt fls v))"
  unfolding flagsToInt_def by (rule flagsToInt_loop_int32) simp

lemma bit_toInt32_flagsToInt:
  "bit (toInt32 (flagsToInt fls v)) j \<longleftrightarrow>
     (\<exists>k<length fls. k mod 32 = j \<and> truthy_prop v (fls ! k))"
  by (simp add: flagsToInt_def bit_flagsToInt_loop)

text \<open>In every case the result is a signed 32-bit integer.\<close>

lemma flagsToInt_int32_range:
  "- (2 ^ 31) \<le> flagsToInt fls v \<and> flagsToInt fls v < 2 ^ 31"
  using sint_ge [of "toInt32 (flagsToInt fls v)"] sint_lt [of "toInt32 (flagsToInt fls v)"]
    flagsToInt_sint [of fls v]
  by simp

lemma bit_flagsToInt_le32:
  assumes "length fls \<le> 32" and "j < 32"
  shows "bit (flagsToInt fls v) j \<longleftrightarrow> j < length fls \<and> truthy_prop v (fls ! j)"
proof -
  have "bit (flagsToInt fls v) j \<longleftrightarrow> bit (toInt32 (flagsToInt fls v)) j"
    using bit_sint_int32 [OF assms(2), of "toInt32 (flagsToInt fls v)"] flagsToInt_sint [of fls v]
    by simp
  also have "\<dots> \<longleftrightarrow> (\<exists>k<length fls. k mod 32 = j \<and> truthy_prop v (fls ! k))"
    by (rule bit_toInt32_flagsToInt)
  also have "\<dots> \<longleftrightarrow> j < length fls \<and> truthy_prop v (fls ! j)"
    using assms by (auto simp: mod_less)
  finally show ?thesis .
qed

lemma bit_flagsToInt_le31:
  assumes "length fls \<le> 31"
  shows "bit (flagsToInt fls v) j \<longleftrightarrow> j < length fls \<and> truthy_prop v (fls ! j)"
proof (cases "j < 32")
  case True
  with assms show ?thesis by (simp add: bit_flagsToInt_le32)
next
  case False
  have top: "\<not> bit (toInt32 (flagsToInt fls v)) 31"
    using assms by (auto simp: bit_toInt32_flagsToInt)
  have "bit (flagsToInt fls v) j \<longleftrightarrow> bit (sint (toInt32 (flagsToInt fls v))) j"
    using flagsToInt_sint [of fls v] by simp
  also have "\<dots> \<longleftrightarrow> False"
    using False top bit_int32_bound [of "toInt32 (flagsToInt fls v)" j]
    by (auto simp: bit_sint_iff)
  finally show ?thesis using False assms by simp
qed

lemma int_bits_below:
  fixes x :: int
  assumes "\<And>j. bit x j \<Longrightarrow> j < n"
  shows "0 \<le> x \<and> x < 2 ^ n"
proof -
  have "take_bit n x = x"
    by (rule bit_eqI) (use assms in \<open>auto simp: bit_take_bit_iff\<close>)
  then show ?thesis
    by (metis take_bit_nonnegative take_bit_int_less_exp)
qed

lemma flagsToInt_range_le31:
  "length fls \<le> 31 \<Longrightarrow> 0 \<le> flagsToInt fls v \<and> flagsToInt fls v < 2 ^ length fls"
  by (rule int_bits_below) (simp add: bit_flagsToInt_le31)


section \<open>Round trips up to 32 flags\<close>

lemma map_of_obj_assign:
  "map_of (obj_assign ob k b) x =
     (if x = k \<and> k \<noteq> ''__proto__'' then Some b else map_of ob x)"
  by (simp add: obj_assign_def map_of_obj_define)

lemma keys_obj_assign:
  "set (Object_keys (obj_assign ob k b)) =
     (if k = ''__proto__'' then set (Object_keys ob) else insert k (set (Object_keys ob)))"
  by (simp add: obj_assign_def keys_obj_define)

lemma fromDriver_loop_other:
  "x \<notin> set fs \<Longrightarrow> map_of (fromDriver_loop i fs r data) x = map_of data x"
  by (induction fs arbitrary: i data) (auto simp: map_of_obj_assign)

lemma fromDriver_loop_nth:
  "distinct fs \<Longrightarrow> k < length fs \<Longrightarrow> fs ! k \<noteq> ''__proto__'' \<Longrightarrow>
   map_of (fromDriver_loop i fs r data) (fs ! k) = Some (bit r ((i + k) mod 32))"
proof (induction fs arbitrary: i k data)
  case Nil
  then show ?case by simp
next
  case (Cons fl fs)
  show ?case
  proof (cases k)
    case 0
    with Cons.prems show ?thesis
      by (simp add: fromDriver_loop_other map_of_obj_assign truthy_bit)
  next
    case (Suc k')
    with Cons.prems have "map_of (fromDriver_loop (Suc i) fs r
          (obj_assign data fl (truthy_num (js_and r (js_shl 1 (int i)))))) (fs ! k') =
        Some (bit r ((Suc i + k') mod 32))"
      by (intro Cons.IH) auto
    with Suc show ?thesis by simp
  qed
qed

lemma keys_fromDriver_loop:
  "set (Object_keys (fromDriver_loop i fs r data)) =
     set (Object_keys data) \<union> (set fs - {''__proto__''})"
  by (induction fs arbitrary: i data) (auto simp: keys_obj_assign)

lemma map_of_fromDriver:
  "distinct fls \<Longrightarrow> k < length fls \<Longrightarrow> fls ! k \<noteq> ''__proto__'' \<Longrightarrow>
   map_of (fromDriver fls r) (fls ! k) = Some (bit r (k mod 32))"
  using fromDriver_loop_nth [of fls k 0 r "[]"] by (simp add: fromDriver_def)

lemma keys_fromDriver:
  "set (Object_keys (fromDriver fls r)) = set fls - {''__proto__''}"
proof -
  have "set (Object_keys ([] :: bool js_object)) = {}"
    by (simp add: Object_keys_def)
  then show ?thesis
    unfolding fromDriver_def keys_fromDriver_loop by simp
qed

text \<open>
  Up to 32 flags, decoding an encoded value gives every flag the truthiness it was
  encoded from, and no other key.
\<close>

lemma decode_encode_le32:
  assumes len: "length fls \<le> 32" and dist: "distinct fls"
      and proto: "''__proto__'' \<notin> set fls"
  shows "map_of (fromDriver fls (toDriver fls v)) x =
           (if x \<in> set fls then Some (truthy_prop v x) else None)"
proof (cases "x \<in> set fls")
  case True
  then obtain k where k: "k < length fls" "fls ! k = x"
    by (auto simp: in_set_conv_nth)
  have np: "fls ! k \<noteq> ''__proto__''"
    using proto nth_mem [OF k(1)] by metis
  have k32: "k < 32" using k(1) len by simp
  have "map_of (fromDriver fls (toDriver fls v)) (fls ! k) =
        Some (bit (flagsToInt fls v) (k mod 32))"
    unfolding toDriver_def by (rule map_of_fromDriver [OF dist k(1) np])
  also have "bit (flagsToInt fls v) (k mod 32) \<longleftrightarrow> truthy_prop v (fls ! k)"
    using k32 k(1) by (simp add: bit_flagsToInt_le32 [OF len])
  finally show ?thesis using True k(2) by simp
next
  case False
  then have "x \<notin> set (Object_keys (fromDriver fls (toDriver fls v)))"
    by (simp add: keys_fromDriver)
  then have "map_of (fromDriver fls (toDriver fls v)) x = None"
    by (simp add: Object_keys_def map_of_eq_None_iff)
  with False show ?thesis by simp
qed

lemma decode_encode_total_le32:
  assumes len: "length fls \<le> 32" and dist: "distinct fls"
      and proto: "''__proto__'' \<notin> set fls"
      and total: "set (Object_keys v) = set fls"
  shows "map_of (fromDriver fls (toDriver fls v)) = map_of v"
proof
  fix x
  show "map_of (fromDriver fls (toDriver fls v)) x = map_of v x"
  proof (cases "x \<in> set fls")
    case True
    then have "has_own v x" using total by (simp add: has_own_iff)
    then obtain b where b: "map_of v x = Some b" by (auto simp: has_own_def)
    then have "truthy_prop v x = b" by (simp add: truthy_prop_def)
    with True b show ?thesis by (simp add: decode_encode_le32 [OF len dist proto])
  next
    case False
    then have "\<not> has_own v x" using total by (simp add: has_own_iff)
    then have "map_of v x = None" by (simp add: has_own_def)
    with False show ?thesis by (simp add: decode_encode_le32 [OF len dist proto])
  qed
qed

text \<open>Up to 31 flags, encoding a decoded integer below \<open>2 ^ |flags|\<close> gives it back.\<close>

lemma encode_decode_le31:
  assumes len: "length fls \<le> 31" and dist: "distinct fls"
      and proto: "''__proto__'' \<notin> set fls"
      and r: "0 \<le> r" "r < 2 ^ length fls"
  shows "flagsToInt fls (fromDriver fls r) = r"
proof (rule bit_eqI)
  fix j
  have rr: "take_bit (length fls) r = r"
    using r by (simp add: take_bit_int_eq_self)
  have low: "bit r j \<Longrightarrow> j < length fls"
    using rr by (metis bit_take_bit_iff)
  show "bit (flagsToInt fls (fromDriver fls r)) j = bit r j"
  proof (cases "j < length fls")
    case True
    have np: "fls ! j \<noteq> ''__proto__''"
      using proto nth_mem [OF True] by metis
    have j32: "j mod 32 = j" using True len by simp
    have "truthy_prop (fromDriver fls r) (fls ! j) = bit r j"
      using map_of_fromDriver [OF dist True np, of r] j32 by (simp add: truthy_prop_def)
    with True show ?thesis by (simp add: bit_flagsToInt_le31 [OF len])
  next
    case False
    with low show ?thesis by (auto simp: bit_flagsToInt_le31 [OF len])
  qed
qed

section \<open>Changing one flag\<close>

lemma truthy_prop_obj_define:
  "truthy_prop (obj_define v k b) x = (if x = k then b else truthy_prop v x)"
  by (simp add: truthy_prop_def map_of_obj_define)

text \<open>
  Up to 31 flags, giving one flag a new boolean sets or clears the bit at its index and
  leaves the other bits alone.
\<close>

lemma toggle_le31:
  assumes len: "length fls \<le> 31" and dist: "distinct fls" and i: "i < length fls"
  shows "flagsToInt fls (obj_define v (fls ! i) b) =
           (if b then set_bit i (flagsToInt fls v) else unset_bit i (flagsToInt fls v))"
proof (rule bit_eqI)
  fix j
  have same: "j < length fls \<Longrightarrow> fls ! j = fls ! i \<longleftrightarrow> j = i"
    using dist i by (simp add: nth_eq_iff_index_eq)
  show "bit (flagsToInt fls (obj_define v (fls ! i) b)) j =
        bit (if b then set_bit i (flagsToInt fls v) else unset_bit i (flagsToInt fls v)) j"
    using same i
    by (auto simp: bit_flagsToInt_le31 [OF len] truthy_prop_obj_define
        bit_set_bit_iff bit_unset_bit_iff)
qed

lemma toggle_on_le31:
  assumes "length fls \<le> 31" "distinct fls" "i < length fls" "\<not> truthy_prop v (fls ! i)"
  shows "flagsToInt fls (obj_define v (fls ! i) True) = flagsToInt fls v + 2 ^ i"
  using assms by (simp add: toggle_le31 set_bit_eq bit_flagsToInt_le31)

lemma toggle_off_le31:
  assumes "length fls \<le> 31" "distinct fls" "i < length fls" "truthy_prop v (fls ! i)"
  shows "flagsToInt fls (obj_define v (fls ! i) False) = flagsToInt fls v - 2 ^ i"
  using assms by (simp add: toggle_le31 unset_bit_eq bit_flagsToInt_le31)

section \<open>Filters up to 31 flags\<close>

lemma map_of_foldl_define:
  "map_of (foldl (\<lambda>ob e. obj_define ob (fst e) (snd e)) ob (map (\<lambda>fl. (fl, P fl)) fls)) x =
     (if x \<in> set fls then Some (P x) else map_of ob x)"
  by (induction fls arbitrary: ob) (auto simp: map_of_obj_define)

lemma truthy_prop_fromEntries:
  "x \<in> set fls \<Longrightarrow> truthy_prop (Object_fromEntries (map (\<lambda>fl. (fl, P fl)) fls)) x = P x"
  by (simp add: truthy_prop_def Object_fromEntries_def map_of_foldl_define)

lemma and_eq_iff_bits:
  fixes r m :: int
  shows "r AND m = m \<longleftrightarrow> (\<forall>j. bit m j \<longrightarrow> bit r j)"
    and "r AND m = 0 \<longleftrightarrow> (\<forall>j. bit m j \<longrightarrow> \<not> bit r j)"
  by (auto simp: bit_eq_iff bit_and_iff)

text \<open>
  Up to 31 recovered flags, the mask of a selection has exactly the bits of the selected
  positions, the \<open>f1\<close> expression holds at the stored integers that have all of them set
  and the \<open>f0\<close> expression at those that have all of them clear.
\<close>

lemma f_le31:
  assumes keys: "Object_keys (mapFromDriverValue col 0) = fls" and len: "length fls \<le> 31"
  shows "\<exists>m. f col (Many vs) True =
            [StringChunk [], ColumnChunk col, StringChunk '' & '', ParamChunk m,
             StringChunk '' = '', ParamChunk m, StringChunk []]
        \<and> f col (Many vs) False =
            [StringChunk [], ColumnChunk col, StringChunk '' & '', ParamChunk m,
             StringChunk '' = 0'']
        \<and> (\<forall>j. bit m j \<longleftrightarrow> j < length fls \<and> fls ! j \<in> set vs)
        \<and> (\<forall>r. eval_filter (f col (Many vs) True) r =
                 Some (\<forall>j<length fls. fls ! j \<in> set vs \<longrightarrow> bit r j))
        \<and> (\<forall>r. eval_filter (f col (Many vs) False) r =
                 Some (\<forall>j<length fls. fls ! j \<in> set vs \<longrightarrow> \<not> bit r j))"
proof -
  define m where "m = flagsToInt fls
     (Object_fromEntries (map (\<lambda>fl. (fl, if fl \<in> set vs then True else False)) fls))"
  have t: "f col (Many vs) True =
            [StringChunk [], ColumnChunk col, StringChunk '' & '', ParamChunk m,
             StringChunk '' = '', ParamChunk m, StringChunk []]"
    by (simp add: f_def Let_def keys m_def)
  have e: "f col (Many vs) False =
            [StringChunk [], ColumnChunk col, StringChunk '' & '', ParamChunk m,
             StringChunk '' = 0'']"
    by (simp add: f_def Let_def keys m_def)
  have bits: "bit m j \<longleftrightarrow> j < length fls \<and> fls ! j \<in> set vs" for j
    unfolding m_def
    by (auto simp: bit_flagsToInt_le31 [OF len] truthy_prop_fromEntries split: if_splits)
  have nonneg: "0 \<le> m"
    unfolding m_def using flagsToInt_range_le31 [OF len] by simp
  have et: "eval_filter (f col (Many vs) True) r =
                 Some (\<forall>j<length fls. fls ! j \<in> set vs \<longrightarrow> bit r j)" for r
    unfolding t using nonneg by (auto simp: eval_filter_def and_eq_iff_bits bits)
  have ee: "eval_filter (f col (Many vs) False) r =
                 Some (\<forall>j<length fls. fls ! j \<in> set vs \<longrightarrow> \<not> bit r j)" for r
    unfolding e using nonneg by (auto simp: eval_filter_def and_eq_iff_bits bits)
  show ?thesis
    using t e bits et ee by blast
qed

section \<open>The examples of the specification\<close>

lemma six_flags_example:
  "eval_filter (f1 (flags ''flags'' [''f0'', ''f1'', ''f2'', ''f3'', ''f4'', ''f5''])
      (Many [''f0'', ''f2''])) 5 = Some True
   \<and> eval_filter (f1 (flags ''flags'' [''f0'', ''f1'', ''f2'', ''f3'', ''f4'', ''f5''])
      (Many [''f0'', ''f2''])) 7 = Some True
   \<and> eval_filter (f1 (flags ''flags'' [''f0'', ''f1'', ''f2'', ''f3'', ''f4'', ''f5''])
      (Many [''f0'', ''f2''])) 1 = Some False
   \<and> eval_filter (f0 (flags ''flags'' [''f0'', ''f1'', ''f2'', ''f3'', ''f4'', ''f5''])
      (Many [''f0'', ''f3''])) 0 = Some True
   \<and> eval_filter (f0 (flags ''flags'' [''f0'', ''f1'', ''f2'', ''f3'', ''f4'', ''f5''])
      (Many [''f0'', ''f3''])) 9 = Some False"
  by code_simp

lemma notifications_example:
  "flagsToInt [''app'', ''newFeatures'', ''tips'', ''marketing'', ''newsletter'']
     [(''app'', True), (''newFeatures'', True), (''tips'', True), (''marketing'', False),
      (''newsletter'', False)] = 7
   \<and> fromDriver [''app'', ''newFeatures'', ''tips'', ''marketing'', ''newsletter''] 7 =
     [(''app'', True), (''newFeatures'', True), (''tips'', True), (''marketing'', False),
      (''newsletter'', False)]"
  by code_simp

section \<open>Flag sets of 32 and 33 names\<close>

text \<open>
  The module accepts up to 64 flags (\<open>bigint\<close>), but \<open>1 << i\<close> and \<open>|\<close> are 32-bit
  operations: the flag at index 31 is the sign bit and the flag at index 32 lands on
  bit 0 again. The theorems of this section evaluate the code there.
\<close>

lemma flags33_facts:
  "length flags33 = 33 \<and> distinct flags33 \<and> length flags32 = 32 \<and> distinct flags32
   \<and> indexOf flags33 ''f32'' = 32 \<and> indexOf flags32 ''f31'' = 31"
  by code_simp

text \<open>
  Claim C1 (decoding an encoded flag value gives the value back, for 1 to 64 flags) at
  33 flags: the total value over \<open>f0 .. f32\<close> in which only \<open>f0\<close> is true is encoded as 1,
  and decoding 1 makes \<open>f32\<close> true.
\<close>

theorem decode_encode_33_flags:
  "Object_keys (flagValue flags33 [''f0'']) = flags33
   \<and> map_of (flagValue flags33 [''f0'']) ''f32'' = Some False
   \<and> toDriver flags33 (flagValue flags33 [''f0'']) = 1
   \<and> map_of (fromDriver flags33 (toDriver flags33 (flagValue flags33 [''f0'']))) ''f32'' =
       Some True"
  by code_simp

text \<open>
  Claim C4 (encoding a decoded integer below \<open>2 ^ n\<close> gives it back) at 33 flags and the
  integer \<open>2 ^ 32\<close>: every flag decodes to false and the encoding of that is 0.
\<close>

theorem encode_decode_33_flags:
  "(0::int) \<le> 4294967296 \<and> (4294967296::int) < 2 ^ length flags33
   \<and> fromDriver flags33 4294967296 = flagValue flags33 []
   \<and> flagsToInt flags33 (fromDriver flags33 4294967296) = 0"
  by code_simp

text \<open>
  Claim C5 (the encoded integer is non-negative and below \<open>2 ^ n\<close>) at 32 flags: with
  only the last flag true the result is \<open>- 2 ^ 31\<close>.
\<close>

theorem flagsToInt_negative_32_flags:
  "Object_keys (flagValue flags32 [''f31'']) = flags32
   \<and> flagsToInt flags32 (flagValue flags32 [''f31'']) = - 2147483648"
  by code_simp

text \<open>
  Claim C9 (toggling the flag at index \<open>i\<close> changes the encoding by \<open>2 ^ i\<close> up or down)
  at 33 flags and index 32: turning \<open>f32\<close> on changes the encoding of the all-false value
  from 0 to 1, and leaves the encoding 1 of the value with only \<open>f0\<close> true as it is.
\<close>

theorem toggle_33_flags:
  "flagsToInt flags33 (flagValue flags33 []) = 0
   \<and> flagsToInt flags33 (obj_define (flagValue flags33 []) ''f32'' True) = 1
   \<and> flagsToInt flags33 (flagValue flags33 [''f0'']) = 1
   \<and> flagsToInt flags33 (obj_define (flagValue flags33 [''f0'']) ''f32'' True) = 1"
  by code_simp

text \<open>
  Claim C3 (the filter compares against the mask that is the OR of \<open>2 ^ i\<close> over the
  selected positions) at 33 recovered flags and the selection \<open>f32\<close>, at position 32:
  the mask is 1, so the \<open>f1\<close> expression holds at the stored integer 1, whose bit 32 is
  clear.
\<close>

theorem f1_mask_33_flags:
  "Object_keys (mapFromDriverValue (flags ''flags'' flags33) 0) = flags33
   \<and> f1 (flags ''flags'' flags33) (One ''f32'') =
       [StringChunk [], ColumnChunk (flags ''flags'' flags33), StringChunk '' & '',
        ParamChunk 1, StringChunk '' = '', ParamChunk 1, StringChunk []]
   \<and> eval_filter (f1 (flags ''flags'' flags33) (One ''f32'')) 1 = Some True
   \<and> \<not> bit (1::int) 32"
proof -
  have k: "Object_keys (mapFromDriverValue (flags ''flags'' flags33) 0) = flags33"
    by code_simp
  have m: "flagsToInt (Object_keys (mapFromDriverValue (flags ''flags'' flags33) 0))
     (Object_fromEntries (map (\<lambda>fl. (fl, if fl \<in> set [''f32''] then True else False))
        (Object_keys (mapFromDriverValue (flags ''flags'' flags33) 0)))) = 1"
    by code_simp
  have e: "f1 (flags ''flags'' flags33) (One ''f32'') =
       [StringChunk [], ColumnChunk (flags ''flags'' flags33), StringChunk '' & '',
        ParamChunk 1, StringChunk '' = '', ParamChunk 1, StringChunk []]"
    unfolding f1_def f_def Let_def flag_arg.case m by simp
  have v: "eval_filter (f1 (flags ''flags'' flags33) (One ''f32'')) 1 = Some True"
    unfolding e by (simp add: eval_filter_def)
  have b: "\<not> bit (1::int) 32"
    by simp
  show ?thesis
    using k e v b by blast
qed

end
